theory Spec2Isabelle
  imports Complex_Main "HOL-Library.Sublist"
begin

section \<open>FireTrack streak calculation (functions/src/index.ts)\<close>

text \<open>
  The Cloud Function \<open>calculateStreaks\<close> walks every habit, reads the habit's most recent
  entries (newest first), turns the entries' \<open>performedAt\<close> timestamps into day keys,
  and writes \<open>currentStreak\<close>, \<open>longestStreak\<close>, \<open>lastEntryAt\<close> and \<open>updatedAt\<close> back to
  the habit document. This theory embeds that code: JavaScript numbers that hold
  millisecond time values are integers, the quotient handed to \<open>Math.round\<close> is a real,
  a Firestore field is a tagged value, and the system clock is an explicit part of the
  world that \<open>new Date()\<close> and \<open>Timestamp.now()\<close> read.
\<close>

subsection \<open>The JavaScript date functions the code calls\<close>

type_synonym instant = int
  \<comment> \<open>a JavaScript time value: milliseconds since 1970-01-01T00:00:00Z\<close>

definition msPerDay :: int where
  "msPerDay = 86400000"

definition Day :: "instant \<Rightarrow> int" where
  \<comment> \<open>ECMAScript \<open>Day(t) = floor(t / msPerDay)\<close>\<close>
  "Day t = t div msPerDay"

definition InLeapYear :: "int \<Rightarrow> bool" where
  "InLeapYear y = (y mod 4 = 0 \<and> (y mod 100 \<noteq> 0 \<or> y mod 400 = 0))"

definition DayFromYear :: "int \<Rightarrow> int" where
  \<comment> \<open>ECMAScript: day number of the first day of year \<open>y\<close>\<close>
  "DayFromYear y =
     365 * (y - 1970) + (y - 1969) div 4 - (y - 1901) div 100 + (y - 1601) div 400"

definition daysBeforeMonth :: "bool \<Rightarrow> int \<Rightarrow> int" where
  \<comment> \<open>days of the year before month \<open>mn\<close> (0 = January), one more after February in a leap year\<close>
  "daysBeforeMonth leap mn =
     [0, 31, 59, 90, 120, 151, 181, 212, 243, 273, 304, 334] ! nat mn
       + (if leap \<and> 2 \<le> mn then 1 else 0)"

definition MakeDay :: "int \<Rightarrow> int \<Rightarrow> int \<Rightarrow> int" where
  \<comment> \<open>ECMAScript \<open>MakeDay(year, month, date)\<close>: months outside 0..11 carry into the year\<close>
  "MakeDay yr month date =
     (let ym = yr + month div 12; mn = month mod 12
      in DayFromYear ym + daysBeforeMonth (InLeapYear ym) mn + date - 1)"

definition Date_UTC :: "int \<Rightarrow> int \<Rightarrow> int \<Rightarrow> instant" where
  \<comment> \<open>\<open>Date.UTC(year, month, day)\<close>; a year from 0 to 99 means 1900 + year\<close>
  "Date_UTC yr month date =
     (let yr' = (if 0 \<le> yr \<and> yr \<le> 99 then 1900 + yr else yr)
      in MakeDay yr' month date * msPerDay)"

type_synonym date_key = "int \<times> int \<times> int"
  \<comment> \<open>the text \<open>yyyy-mm-dd\<close>, as its three numbers (year, month 1..12, day 1..31)\<close>

text \<open>
  A Firestore \<open>Timestamp\<close> lies in the years 0001 to 9999, and so does the clock. There
  \<open>toISOString()\<close> writes the year with four digits, the first ten characters are the
  date, and the three parts that \<open>toUtc\<close> splits off are all present (its defaults
  \<open>month ?? 1\<close> and \<open>day ?? 1\<close> are never taken). Two keys are equal as texts exactly
  when they are equal as triples.
\<close>

definition YearFromTime :: "instant \<Rightarrow> int" where
  \<comment> \<open>ECMAScript: the largest year whose first day is not after \<open>Day t\<close>; computed
      from the mean year length of 146097 / 400 days, which is off by one year at most\<close>
  "YearFromTime t =
     (let y0 = 1970 + (400 * Day t) div 146097
      in if Day t < DayFromYear y0 then y0 - 1
         else if DayFromYear (y0 + 1) \<le> Day t then y0 + 1
         else y0)"

definition DayWithinYear :: "instant \<Rightarrow> int" where
  "DayWithinYear t = Day t - DayFromYear (YearFromTime t)"

definition MonthFromTime :: "instant \<Rightarrow> int" where
  \<comment> \<open>ECMAScript \<open>MonthFromTime\<close>: 0 for January to 11 for December\<close>
  "MonthFromTime t =
     (let d = DayWithinYear t;
          leap = (if InLeapYear (YearFromTime t) then 1 else 0)
      in if d < 31 then 0
         else if d < 59 + leap then 1
         else if d < 90 + leap then 2
         else if d < 120 + leap then 3
         else if d < 151 + leap then 4
         else if d < 181 + leap then 5
         else if d < 212 + leap then 6
         else if d < 243 + leap then 7
         else if d < 273 + leap then 8
         else if d < 304 + leap then 9
         else if d < 334 + leap then 10
         else 11)"

definition DateFromTime :: "instant \<Rightarrow> int" where
  \<comment> \<open>ECMAScript \<open>DateFromTime\<close>: the day of the month, from 1\<close>
  "DateFromTime t =
     DayWithinYear t - daysBeforeMonth (InLeapYear (YearFromTime t)) (MonthFromTime t) + 1"

definition Math_round :: "real \<Rightarrow> int" where
  \<comment> \<open>\<open>Math.round\<close>: the nearest integer, a half rounded up\<close>
  "Math_round x = \<lfloor>x + 1 / 2\<rfloor>"

subsection \<open>The system clock\<close>

record world =
  clock :: "nat \<Rightarrow> instant"
  reads :: nat

definition new_Date :: "world \<Rightarrow> instant \<times> world" where
  \<comment> \<open>\<open>new Date()\<close> and \<open>Timestamp.now()\<close>: the next reading of the ambient clock\<close>
  "new_Date w = (clock w (reads w), w\<lparr>reads := Suc (reads w)\<rparr>)"

subsection \<open>Firestore documents\<close>

datatype fvalue =
    FTimestamp int int
  | FString string
  | FNumber int
  | FNull
  | FUndefined

text \<open>
  \<open>FTimestamp seconds nanoseconds\<close> is a Firestore \<open>Timestamp\<close>: whole seconds since
  the epoch and the nanoseconds within the second (from 0 to 999999999);
  \<open>FUndefined\<close> is what \<open>get\<close> returns for a field the document does not have.
\<close>

definition toDate :: "int \<Rightarrow> int \<Rightarrow> instant" where
  \<comment> \<open>\<open>Timestamp.toDate()\<close> of the server library:
      \<open>new Date(seconds * 1000 + Math.round(nanoseconds / 1000000))\<close>,
      the nearest millisecond\<close>
  "toDate seconds nanoseconds =
     seconds * 1000 + Math_round (real_of_int nanoseconds / 1000000)"

definition Timestamp_fromMillis :: "instant \<Rightarrow> fvalue" where
  \<comment> \<open>\<open>Timestamp.fromMillis\<close>, through which \<open>Timestamp.now()\<close> wraps the clock reading\<close>
  "Timestamp_fromMillis ms = FTimestamp (ms div 1000) ((ms mod 1000) * 1000000)"

record entry_doc =
  performedAt :: fvalue
  entry_note :: "string option"
  entry_mood :: "string option"

record habit_doc =
  currentStreak :: "int option"
  longestStreak :: "int option"
  lastEntryAt :: fvalue
  updatedAt :: fvalue

subsection \<open>The functions of index.ts\<close>

definition DAY_MS :: int where
  "DAY_MS = 24 * 60 * 60 * 1000"

definition toDateKey :: "instant \<Rightarrow> date_key" where
  \<comment> \<open>\<open>date.toISOString().slice(0, 10)\<close>: the UTC calendar date of the instant\<close>
  "toDateKey date = (YearFromTime date, MonthFromTime date + 1, DateFromTime date)"

definition toUtc :: "date_key \<Rightarrow> instant" where
  \<comment> \<open>\<open>Date.UTC(year, (month ?? 1) - 1, day ?? 1)\<close> on the three numbers of the key\<close>
  "toUtc dateKey = (case dateKey of (year, month, day) \<Rightarrow> Date_UTC year (month - 1) day)"

definition dayDiff :: "instant \<Rightarrow> instant \<Rightarrow> int" where
  \<comment> \<open>the expression \<open>Math.round((a - b) / DAY_MS)\<close>, written three times in the source\<close>
  "dayDiff a b = Math_round (real_of_int (a - b) / real_of_int DAY_MS)"

fun currentLoop :: "instant \<Rightarrow> int \<Rightarrow> date_key list \<Rightarrow> int" where
  \<comment> \<open>the \<open>for\<close> loop of \<open>computeCurrentStreak\<close> over the keys from index 1 on\<close>
  "currentLoop previousUtc streak [] = streak"
| "currentLoop previousUtc streak (key # rest) =
     (let currentUtc = toUtc key;
          diff = dayDiff previousUtc currentUtc
      in if diff = 0 then currentLoop previousUtc streak rest
         else if diff = 1 then currentLoop currentUtc (streak + 1) rest
         else streak)"

definition computeCurrentStreak :: "date_key list \<Rightarrow> world \<Rightarrow> int \<times> world" where
  "computeCurrentStreak dateKeys w =
     (case dateKeys of
        [] \<Rightarrow> (0, w)
      | first # rest \<Rightarrow>
          (let (now, w') = new_Date w;
               todayKey = toDateKey now;
               todayUtc = toUtc todayKey;
               firstUtc = toUtc first;
               diffToday = dayDiff todayUtc firstUtc
           in if diffToday > 1 then (0, w')
              else (currentLoop firstUtc 1 rest, w')))"

fun longestLoop :: "int \<Rightarrow> int \<Rightarrow> instant option \<Rightarrow> date_key list \<Rightarrow> int" where
  \<comment> \<open>the \<open>for ... of\<close> loop of \<open>computeLongestStreak\<close>; the state is
      \<open>longest\<close>, \<open>run\<close> and \<open>previousUtc\<close> (\<open>None\<close> for \<open>null\<close>)\<close>
  "longestLoop longest run previousUtc [] = longest"
| "longestLoop longest run previousUtc (key # rest) =
     (let currentUtc = toUtc key
      in case previousUtc of
           None \<Rightarrow> longestLoop (max longest 1) 1 (Some currentUtc) rest
         | Some p \<Rightarrow>
             (let diff = dayDiff p currentUtc
              in if diff = 0 then longestLoop longest run previousUtc rest
                 else (let run' = (if diff = 1 then run + 1 else 1)
                       in longestLoop (max longest run') run' (Some currentUtc) rest)))"

definition computeLongestStreak :: "date_key list \<Rightarrow> int" where
  "computeLongestStreak dateKeys =
     (if dateKeys = [] then 0 else longestLoop 0 0 None dateKeys)"

fun collectKeys :: "date_key list \<Rightarrow> entry_doc list \<Rightarrow> date_key list" where
  \<comment> \<open>the loop over \<open>entriesSnapshot.docs\<close> that fills \<open>dateKeys\<close>; on the empty array
      \<open>dateKeys[dateKeys.length - 1]\<close> is \<open>undefined\<close>, which differs from every key\<close>
  "collectKeys dateKeys [] = dateKeys"
| "collectKeys dateKeys (entryDoc # docs) =
     (case performedAt entryDoc of
        FTimestamp seconds nanoseconds \<Rightarrow>
          (let key = toDateKey (toDate seconds nanoseconds)
           in if dateKeys = [] \<or> last dateKeys \<noteq> key
              then collectKeys (dateKeys @ [key]) docs
              else collectKeys dateKeys docs)
      | _ \<Rightarrow> collectKeys dateKeys docs)"

definition firstPerformedAt :: "entry_doc list \<Rightarrow> fvalue" where
  \<comment> \<open>\<open>entriesSnapshot.docs[0]?.get("performedAt") ?? null\<close>\<close>
  "firstPerformedAt docs =
     (case docs of
        [] \<Rightarrow> FNull
      | d # _ \<Rightarrow> (case performedAt d of FUndefined \<Rightarrow> FNull | v \<Rightarrow> v))"

definition previousLongest :: "habit_doc \<Rightarrow> int" where
  \<comment> \<open>\<open>Number(habitDoc.get("longestStreak") ?? 0)\<close> on the schema's optional int\<close>
  "previousLongest habitDoc = (case longestStreak habitDoc of None \<Rightarrow> 0 | Some n \<Rightarrow> n)"

definition processHabit :: "habit_doc \<Rightarrow> entry_doc list \<Rightarrow> world \<Rightarrow> habit_doc \<times> world" where
  \<comment> \<open>the body of the loop over \<open>habitsSnapshot.docs\<close>: \<open>habitDoc\<close> is the stored habit,
      \<open>docs\<close> the result of its entries query (performedAt descending, at most 120)\<close>
  "processHabit habitDoc docs w =
     (let dateKeys = collectKeys [] docs;
          (current, w1) = computeCurrentStreak dateKeys w;
          longestStreakCandidate = computeLongestStreak dateKeys;
          longest = max (previousLongest habitDoc) longestStreakCandidate;
          last_entry = firstPerformedAt docs;
          (now, w2) = new_Date w1
      in (habitDoc\<lparr>currentStreak := Some current,
                   longestStreak := Some longest,
                   lastEntryAt := last_entry,
                   updatedAt := Timestamp_fromMillis now\<rparr>, w2))"

fun calculateStreaks ::
  "(habit_doc \<times> entry_doc list) list \<Rightarrow> world \<Rightarrow> ((habit_doc \<times> entry_doc list) list \<times> nat) \<times> world" where
  \<comment> \<open>the handler: every habit with its entries, in snapshot order; the result is the
      habits as written back and the \<open>processed\<close> count of the response\<close>
  "calculateStreaks [] w = (([], 0), w)"
| "calculateStreaks ((habitDoc, docs) # habits) w =
     (let (habitDoc', w1) = processHabit habitDoc docs w;
          ((habits', processed), w2) = calculateStreaks habits w1
      in (((habitDoc', docs) # habits', processed + 1), w2))"

subsection \<open>The vocabulary of the specification\<close>

text \<open>
  The specification speaks of the whole-day gap between two day keys, of a sequence of
  distinct keys sorted newest first, and of contiguous runs of days. The gap is the
  source's own rounded quotient of the two UTC midnights. A sequence has distinct days
  when no key has the midnight of the key in front of it (the form in which the key
  loop leaves the sequence), and it is moreover sorted newest first when the midnights
  strictly decrease along it. For keys of the years 0 to 99 the code's midnights are
  not the calendar's; the calendar's own notions follow further down.
\<close>

definition gap :: "date_key \<Rightarrow> date_key \<Rightarrow> int" where
  "gap newer older = dayDiff (toUtc newer) (toUtc older)"

definition todayUtc :: "world \<Rightarrow> instant" where
  \<comment> \<open>the UTC midnight of the day the clock shows at its next reading\<close>
  "todayUtc w = toUtc (toDateKey (fst (new_Date w)))"

definition gapToToday :: "world \<Rightarrow> date_key \<Rightarrow> int" where
  "gapToToday w key = dayDiff (todayUtc w) (toUtc key)"

definition newestFirst :: "date_key list \<Rightarrow> bool" where
  "newestFirst dateKeys = sorted_wrt (\<lambda>a b. toUtc b < toUtc a) dateKeys"

definition distinctDays :: "date_key list \<Rightarrow> bool" where
  \<comment> \<open>no key falls on the day of the key in front of it\<close>
  "distinctDays dateKeys = successively (\<lambda>a b. toUtc a \<noteq> toUtc b) dateKeys"

definition contiguous :: "date_key list \<Rightarrow> bool" where
  \<comment> \<open>every key is exactly one day before the key in front of it\<close>
  "contiguous dateKeys = successively (\<lambda>a b. gap a b = 1) dateKeys"

definition trailingRun :: "date_key list \<Rightarrow> nat" where
  \<comment> \<open>the length of the longest contiguous run that starts at the newest key\<close>
  "trailingRun dateKeys = Max (set (map length (filter contiguous (prefixes dateKeys))))"

definition toUtcMaxRun :: "date_key list \<Rightarrow> nat" where
  \<comment> \<open>auxiliary: the longest run when neighbouring keys are compared through the code's
      own \<open>toUtc\<close>; for years from 100 on it is \<open>calendarMaxRun\<close> below\<close>
  "toUtcMaxRun dateKeys = Max (set (map length (filter contiguous (sublists dateKeys))))"

text \<open>
  The calendar itself: the day number of the date that a key names, with the year taken
  as written (\<open>toUtc\<close> goes through \<open>Date.UTC\<close>, which takes a year from 0 to 99 as
  1900 + year), and the runs of days one apart measured with it.
\<close>

definition keyDay :: "date_key \<Rightarrow> int" where
  \<comment> \<open>days from 1970-01-01 to the date \<open>yyyy-mm-dd\<close> of the key\<close>
  "keyDay dateKey = (case dateKey of (year, month, day) \<Rightarrow> MakeDay year (month - 1) day)"

definition calendarGap :: "date_key \<Rightarrow> date_key \<Rightarrow> int" where
  "calendarGap newer older = keyDay newer - keyDay older"

definition calendarNewestFirst :: "date_key list \<Rightarrow> bool" where
  \<comment> \<open>distinct days, sorted newest first\<close>
  "calendarNewestFirst dateKeys = sorted_wrt (\<lambda>a b. keyDay b < keyDay a) dateKeys"

definition calendarContiguous :: "date_key list \<Rightarrow> bool" where
  "calendarContiguous dateKeys = successively (\<lambda>a b. calendarGap a b = 1) dateKeys"

definition calendarMaxRun :: "date_key list \<Rightarrow> nat" where
  \<comment> \<open>the length of the longest run of consecutive calendar days anywhere in the sequence\<close>
  "calendarMaxRun dateKeys =
     Max (set (map length (filter calendarContiguous (sublists dateKeys))))"

text \<open>
  The exact time of a \<open>Timestamp\<close>, before \<open>toDate()\<close> rounds it, and the UTC day on
  which it lies.
\<close>

definition nanosSinceEpoch :: "int \<Rightarrow> int \<Rightarrow> int" where
  "nanosSinceEpoch seconds nanoseconds = seconds * 1000000000 + nanoseconds"

definition exactDay :: "int \<Rightarrow> int \<Rightarrow> int" where
  "exactDay seconds nanoseconds = nanosSinceEpoch seconds nanoseconds div 86400000000000"

fun exactTimes :: "entry_doc list \<Rightarrow> int list" where
  \<comment> \<open>the exact times of the entries that carry a timestamp, in list order\<close>
  "exactTimes [] = []"
| "exactTimes (entryDoc # docs) =
     (case performedAt entryDoc of
        FTimestamp seconds nanoseconds \<Rightarrow> nanosSinceEpoch seconds nanoseconds # exactTimes docs
      | _ \<Rightarrow> exactTimes docs)"

definition validNanos :: "entry_doc \<Rightarrow> bool" where
  \<comment> \<open>what the \<open>Timestamp\<close> constructor checks: nanoseconds from 0 to 999999999\<close>
  "validNanos entryDoc =
     (case performedAt entryDoc of
        FTimestamp seconds nanoseconds \<Rightarrow> 0 \<le> nanoseconds \<and> nanoseconds < 1000000000
      | _ \<Rightarrow> True)"

definition hasTimestamp :: "entry_doc \<Rightarrow> bool" where
  \<comment> \<open>\<open>performedAt instanceof Timestamp\<close>\<close>
  "hasTimestamp entryDoc =
     (case performedAt entryDoc of FTimestamp seconds nanoseconds \<Rightarrow> True | _ \<Rightarrow> False)"

fun instants :: "entry_doc list \<Rightarrow> instant list" where
  \<comment> \<open>the time values \<open>performedAt.toDate()\<close> of the entries that carry a timestamp,
      in list order\<close>
  "instants [] = []"
| "instants (entryDoc # docs) =
     (case performedAt entryDoc of
        FTimestamp seconds nanoseconds \<Rightarrow> toDate seconds nanoseconds # instants docs
      | _ \<Rightarrow> instants docs)"

fun leadRun :: "date_key \<Rightarrow> date_key list \<Rightarrow> nat" where
  \<comment> \<open>how many keys of the list continue the run of key \<open>p\<close> in front of it\<close>
  "leadRun p [] = 0"
| "leadRun p (k # ks) = (if gap p k = 1 then Suc (leadRun k ks) else 0)"

subsection \<open>Sample data\<close>

definition tickingClock :: "instant \<Rightarrow> nat \<Rightarrow> instant" where
  \<comment> \<open>a clock that shows \<open>start\<close> first and one millisecond more at every later reading\<close>
  "tickingClock start n = start + int n"

definition worldAt :: "instant \<Rightarrow> world" where
  "worldAt start = \<lparr>clock = tickingClock start, reads = 0\<rparr>"

definition entryWith :: "fvalue \<Rightarrow> entry_doc" where
  "entryWith v = \<lparr>performedAt = v, entry_note = None, entry_mood = None\<rparr>"

definition freshHabit :: habit_doc where
  \<comment> \<open>a habit as the client creates it: no streak fields yet\<close>
  "freshHabit = \<lparr>currentStreak = None, longestStreak = None,
                  lastEntryAt = FNull, updatedAt = FNull\<rparr>"

section \<open>Day arithmetic\<close>

lemma DAY_MS_pos: "0 < DAY_MS"
  by (simp add: DAY_MS_def)

lemma Math_round_of_int: "Math_round (real_of_int n) = n"
  unfolding Math_round_def by linarith

text \<open>
  On integers the rounded quotient is an integer division; this is also the equation
  used to evaluate \<open>dayDiff\<close> on concrete time values.
\<close>

lemma dayDiff_int [code]: "dayDiff a b = (2 * (a - b) + DAY_MS) div (2 * DAY_MS)"
proof -
  have "real_of_int (a - b) / real_of_int DAY_MS + 1 / 2
        = real_of_int (2 * (a - b) + DAY_MS) / real_of_int (2 * DAY_MS)"
    using DAY_MS_pos by (simp add: field_simps)
  then show ?thesis
    unfolding dayDiff_def Math_round_def by (simp only: floor_divide_of_int_eq)
qed

lemma dayDiff_days: "dayDiff (m * DAY_MS) (n * DAY_MS) = m - n"
proof -
  have "real_of_int (m * DAY_MS - n * DAY_MS) / real_of_int DAY_MS = real_of_int (m - n)"
    using DAY_MS_pos by (simp add: field_simps)
  then show ?thesis
    unfolding dayDiff_def by (simp only: Math_round_of_int)
qed

lemma toDate_int [code]:
  "toDate seconds nanoseconds = seconds * 1000 + (2 * nanoseconds + 1000000) div 2000000"
proof -
  have "real_of_int nanoseconds / 1000000 + 1 / 2
        = real_of_int (2 * nanoseconds + 1000000) / real_of_int 2000000"
    by (simp add: field_simps)
  then show ?thesis
    unfolding toDate_def Math_round_def by (simp only: floor_divide_of_int_eq)
qed

text \<open>\<open>toUtc\<close> always returns a UTC midnight: a whole number of days.\<close>

lemma toUtc_days: "\<exists>n. toUtc k = n * DAY_MS"
  by (cases k) (simp add: toUtc_def Date_UTC_def DAY_MS_def msPerDay_def Let_def)

lemma gap_ne_0:
  assumes "toUtc a \<noteq> toUtc b"
  shows "gap a b \<noteq> 0"
proof -
  obtain m n where m: "toUtc a = m * DAY_MS" and n: "toUtc b = n * DAY_MS"
    using toUtc_days by blast
  from assms have "m \<noteq> n"
    unfolding m n by auto
  then show ?thesis
    unfolding gap_def m n dayDiff_days by simp
qed

lemma newestFirst_distinctDays:
  assumes "newestFirst ks"
  shows "distinctDays ks"
proof -
  from assms have "successively (\<lambda>a b. toUtc b < toUtc a) ks"
    unfolding newestFirst_def by (rule successively_if_sorted_wrt)
  then show ?thesis
    unfolding distinctDays_def by (rule successively_mono) auto
qed

section \<open>The two loops\<close>

lemma computeCurrentStreak_Cons:
  "fst (computeCurrentStreak (first # rest) w) =
     (if 1 < gapToToday w first then 0 else currentLoop (toUtc first) 1 rest)"
  by (simp add: computeCurrentStreak_def gapToToday_def todayUtc_def new_Date_def Let_def)

lemma computeCurrentStreak_Nil: "computeCurrentStreak [] w = (0, w)"
  by (simp add: computeCurrentStreak_def)

lemma currentLoop_ge: "streak \<le> currentLoop p streak keys"
proof (induction keys arbitrary: p streak)
  case Nil
  then show ?case by simp
next
  case (Cons key rest)
  have "streak \<le> currentLoop (toUtc key) (streak + 1) rest"
    using Cons.IH [of "streak + 1" "toUtc key"] by simp
  then show ?case
    using Cons.IH [of streak p] by (simp add: Let_def)
qed

lemma longestLoop_ge: "longest \<le> longestLoop longest run prev keys"
proof (induction keys arbitrary: longest run prev)
  case Nil
  then show ?case by simp
next
  case (Cons key rest)
  have a: "longest \<le> longestLoop (max longest x) r p rest" for x r p
    using Cons.IH [of "max longest x" r p] by simp
  show ?case
    using Cons.IH a by (simp add: Let_def split: option.split)
qed

lemma currentLoop_le_longestLoop:
  "streak \<le> longest \<Longrightarrow> currentLoop p streak keys \<le> longestLoop longest streak (Some p) keys"
proof (induction keys arbitrary: p streak longest)
  case Nil
  then show ?case by simp
next
  case (Cons key rest)
  have brk: "streak \<le> longestLoop (max longest 1) 1 (Some (toUtc key)) rest"
    using longestLoop_ge [of "max longest 1" 1 "Some (toUtc key)" rest] Cons.prems by simp
  have cont: "currentLoop (toUtc key) (streak + 1) rest
                \<le> longestLoop (max longest (streak + 1)) (streak + 1) (Some (toUtc key)) rest"
    by (rule Cons.IH) simp
  show ?case
    using Cons.IH [OF Cons.prems, of p] brk cont by (simp add: Let_def)
qed

lemma current_le_candidate:
  "fst (computeCurrentStreak keys w) \<le> computeLongestStreak keys"
proof (cases keys)
  case Nil
  then show ?thesis by (simp add: computeCurrentStreak_def computeLongestStreak_def)
next
  case (Cons first rest)
  have "currentLoop (toUtc first) 1 rest \<le> longestLoop 1 1 (Some (toUtc first)) rest"
    by (rule currentLoop_le_longestLoop) simp
  moreover have "0 \<le> longestLoop 1 1 (Some (toUtc first)) rest"
    using longestLoop_ge [of 1 1 "Some (toUtc first)" rest] by simp
  ultimately show ?thesis
    using Cons by (simp add: computeCurrentStreak_Cons computeLongestStreak_def)
qed

lemma processHabit_fields:
  "currentStreak (fst (processHabit habitDoc docs w))
     = Some (fst (computeCurrentStreak (collectKeys [] docs) w))"
  "longestStreak (fst (processHabit habitDoc docs w))
     = Some (max (previousLongest habitDoc) (computeLongestStreak (collectKeys [] docs)))"
  "lastEntryAt (fst (processHabit habitDoc docs w)) = firstPerformedAt docs"
  by (simp_all add: processHabit_def Let_def split_def)

lemma calculateStreaks_processed:
  "snd (fst (calculateStreaks habits w)) = length habits"
  by (induction habits arbitrary: w) (auto simp: split_def Let_def)

section \<open>Runs of contiguous days\<close>

lemma contiguous_Cons2:
  "contiguous (p # k # ks) \<longleftrightarrow> gap p k = 1 \<and> contiguous (k # ks)"
  by (simp add: contiguous_def)

lemma contiguous_short [simp]: "contiguous []" "contiguous [p]"
  by (simp_all add: contiguous_def)

lemma currentLoop_leadRun:
  "distinctDays (p # ks) \<Longrightarrow> currentLoop (toUtc p) s ks = s + int (leadRun p ks)"
proof (induction ks arbitrary: p s)
  case Nil
  then show ?case by simp
next
  case (Cons k rest)
  from Cons.prems have ne: "toUtc p \<noteq> toUtc k" and nf: "distinctDays (k # rest)"
    by (simp_all add: distinctDays_def)
  from gap_ne_0 [OF ne] have g0: "dayDiff (toUtc p) (toUtc k) \<noteq> 0"
    by (simp add: gap_def)
  show ?case
    using g0 Cons.IH [OF nf, of "s + 1"] by (simp add: Let_def gap_def)
qed

lemma contiguous_prefix_le:
  "prefix q (p # ks) \<Longrightarrow> contiguous q \<Longrightarrow> length q \<le> Suc (leadRun p ks)"
proof (induction ks arbitrary: p q)
  case Nil
  then show ?case by (cases q) auto
next
  case (Cons k rest)
  show ?case
  proof (cases q)
    case Nil
    then show ?thesis by simp
  next
    case q: (Cons a q')
    with Cons.prems have a: "a = p" and pre: "prefix q' (k # rest)" by simp_all
    show ?thesis
    proof (cases q')
      case Nil
      with q show ?thesis by simp
    next
      case q': (Cons b q'')
      with pre have b: "b = k" by simp
      from Cons.prems(2) have g: "gap p k = 1" and c: "contiguous q'"
        unfolding q q' a b by (simp_all add: contiguous_Cons2)
      from Cons.IH [OF _ c, of k] pre q' b have "length q' \<le> Suc (leadRun k rest)" by simp
      with g q show ?thesis by simp
    qed
  qed
qed

lemma contiguous_take_leadRun:
  "contiguous (take (Suc (leadRun p ks)) (p # ks)) \<and> leadRun p ks \<le> length ks"
proof (induction ks arbitrary: p)
  case Nil
  then show ?case by simp
next
  case (Cons k rest)
  then show ?case
    using Cons.IH [of k] by (simp add: contiguous_Cons2)
qed

lemma contiguous_take_iff:
  "n \<le> length ks \<Longrightarrow> contiguous (take (Suc n) (p # ks)) \<longleftrightarrow> n \<le> leadRun p ks"
proof (induction ks arbitrary: p n)
  case Nil
  then show ?case by simp
next
  case (Cons k rest)
  show ?case
  proof (cases n)
    case 0
    then show ?thesis by simp
  next
    case (Suc m)
    with Cons.prems have "m \<le> length rest" by simp
    from Cons.IH [OF this, of k] Suc show ?thesis
      by (simp add: contiguous_Cons2)
  qed
qed

lemma trailingRun_set:
  "trailingRun ks = Max (length ` {q. prefix q ks \<and> contiguous q})"
proof -
  have "set (map length (filter contiguous (prefixes ks)))
        = length ` {q. prefix q ks \<and> contiguous q}"
    by auto
  then show ?thesis by (simp only: trailingRun_def)
qed

lemma maxRun_set:
  "toUtcMaxRun ks = Max (length ` {q. sublist q ks \<and> contiguous q})"
proof -
  have "set (map length (filter contiguous (sublists ks)))
        = length ` {q. sublist q ks \<and> contiguous q}"
    by auto
  then show ?thesis by (simp only: toUtcMaxRun_def)
qed

lemma finite_prefixes_set: "finite {q. prefix q ks \<and> P q}"
proof -
  have "{q. prefix q ks \<and> P q} \<subseteq> set (prefixes ks)" by auto
  then show ?thesis by (rule finite_subset) simp
qed

lemma finite_sublists_set: "finite {q. sublist q ks \<and> P q}"
proof -
  have "{q. sublist q ks \<and> P q} \<subseteq> set (sublists ks)" by auto
  then show ?thesis by (rule finite_subset) simp
qed

lemma trailingRun_Cons: "trailingRun (p # ks) = Suc (leadRun p ks)"
  unfolding trailingRun_set
proof (rule Max_eqI)
  show "finite (length ` {q. prefix q (p # ks) \<and> contiguous q})"
    by (intro finite_imageI finite_prefixes_set)
next
  fix n assume "n \<in> length ` {q. prefix q (p # ks) \<and> contiguous q}"
  then show "n \<le> Suc (leadRun p ks)"
    by (auto intro!: contiguous_prefix_le)
next
  let ?q = "take (Suc (leadRun p ks)) (p # ks)"
  have "prefix ?q (p # ks)" by (rule take_is_prefix)
  moreover have "contiguous ?q" using contiguous_take_leadRun by blast
  moreover have "length ?q = Suc (leadRun p ks)"
    using contiguous_take_leadRun [of p ks] by simp
  ultimately show "Suc (leadRun p ks) \<in> length ` {q. prefix q (p # ks) \<and> contiguous q}"
    by (metis (mono_tags, lifting) image_eqI mem_Collect_eq)
qed

lemma maxRun_Nil: "toUtcMaxRun [] = 0"
  by (simp add: toUtcMaxRun_def)

lemma maxRun_Cons: "toUtcMaxRun (p # ks) = max (Suc (leadRun p ks)) (toUtcMaxRun ks)"
proof -
  let ?A = "length ` {q. prefix q (p # ks) \<and> contiguous q}"
  let ?B = "length ` {q. sublist q ks \<and> contiguous q}"
  have split: "length ` {q. sublist q (p # ks) \<and> contiguous q} = ?A \<union> ?B"
    by (auto simp: sublist_Cons_right)
  have fA: "finite ?A" by (intro finite_imageI finite_prefixes_set)
  have fB: "finite ?B" by (intro finite_imageI finite_sublists_set)
  have neA: "?A \<noteq> {}" by (auto intro: exI [of _ "[]"])
  have neB: "?B \<noteq> {}" by (auto intro: exI [of _ "[]"])
  have "toUtcMaxRun (p # ks) = max (Max ?A) (Max ?B)"
    unfolding maxRun_set split by (rule Max_Un [OF fA neA fB neB])
  then show ?thesis
    by (simp only: trailingRun_set [symmetric] maxRun_set [symmetric] trailingRun_Cons)
qed

lemma longestLoop_maxRun:
  "distinctDays (p # ks) \<Longrightarrow> 0 \<le> r \<Longrightarrow> r \<le> l \<Longrightarrow>
   longestLoop l r (Some (toUtc p)) ks = max l (max (r + int (leadRun p ks)) (int (toUtcMaxRun ks)))"
proof (induction ks arbitrary: p r l)
  case Nil
  then show ?case by (simp add: maxRun_Nil)
next
  case (Cons k rest)
  from Cons.prems have ne: "toUtc p \<noteq> toUtc k" and nf: "distinctDays (k # rest)"
    by (simp_all add: distinctDays_def)
  from gap_ne_0 [OF ne] have g0: "gap p k \<noteq> 0" .
  show ?case
  proof (cases "gap p k = 1")
    case True
    have "longestLoop (max l (r + 1)) (r + 1) (Some (toUtc k)) rest
          = max (max l (r + 1)) (max (r + 1 + int (leadRun k rest)) (int (toUtcMaxRun rest)))"
      using Cons.prems by (intro Cons.IH [OF nf]) simp_all
    then show ?thesis
      using True Cons.prems by (simp add: Let_def gap_def [symmetric] maxRun_Cons max_def)
  next
    case False
    have "longestLoop (max l 1) 1 (Some (toUtc k)) rest
          = max (max l 1) (max (1 + int (leadRun k rest)) (int (toUtcMaxRun rest)))"
      using Cons.prems by (intro Cons.IH [OF nf]) simp_all
    then show ?thesis
      using False g0 Cons.prems by (simp add: Let_def gap_def [symmetric] maxRun_Cons max_def)
  qed
qed

lemma computeLongestStreak_maxRun:
  "distinctDays ks \<Longrightarrow> computeLongestStreak ks = int (toUtcMaxRun ks)"
proof (cases ks)
  case Nil
  then show ?thesis by (simp add: computeLongestStreak_def maxRun_Nil)
next
  case (Cons p rest)
  assume "distinctDays ks"
  with Cons have "longestLoop 1 1 (Some (toUtc p)) rest
      = max 1 (max (1 + int (leadRun p rest)) (int (toUtcMaxRun rest)))"
    by (intro longestLoop_maxRun) simp_all
  then show ?thesis
    using Cons by (simp add: computeLongestStreak_def maxRun_Cons max_def)
qed

section \<open>The code's day differences and the calendar's\<close>

lemma toUtc_keyDay: "100 \<le> fst k \<Longrightarrow> toUtc k = keyDay k * DAY_MS"
  by (cases k) (simp add: toUtc_def keyDay_def Date_UTC_def DAY_MS_def msPerDay_def)

lemma gap_calendarGap:
  "100 \<le> fst a \<Longrightarrow> 100 \<le> fst b \<Longrightarrow> gap a b = calendarGap a b"
  by (simp add: gap_def calendarGap_def toUtc_keyDay dayDiff_days)

lemma contiguous_calendar:
  "\<forall>k \<in> set q. 100 \<le> fst k \<Longrightarrow> contiguous q = calendarContiguous q"
  unfolding contiguous_def calendarContiguous_def
  by (induction q rule: induct_list012) (simp_all add: gap_calendarGap)

lemma toUtcMaxRun_calendar:
  assumes "\<forall>k \<in> set ks. 100 \<le> fst k"
  shows "toUtcMaxRun ks = calendarMaxRun ks"
proof -
  have "contiguous q = calendarContiguous q" if "q \<in> set (sublists ks)" for q
  proof -
    from that have "set q \<subseteq> set ks"
      by (simp add: set_mono_sublist)
    with assms show ?thesis
      by (intro contiguous_calendar) blast
  qed
  then have "filter contiguous (sublists ks) = filter calendarContiguous (sublists ks)"
    by (intro filter_cong) simp_all
  then show ?thesis
    by (simp only: toUtcMaxRun_def calendarMaxRun_def)
qed

lemma calendarNewestFirst_newestFirst:
  assumes "calendarNewestFirst ks" and "\<forall>k \<in> set ks. 100 \<le> fst k"
  shows "newestFirst ks"
proof -
  have "toUtc b < toUtc a" if "a \<in> set ks" "b \<in> set ks" "keyDay b < keyDay a" for a b
    using that assms(2) DAY_MS_pos by (simp add: toUtc_keyDay)
  with assms(1) show ?thesis
    unfolding calendarNewestFirst_def newestFirst_def
    by (rule_tac sorted_wrt_mono_rel) auto
qed

text \<open>
  For keys with years from 100 on, sorted newest first with distinct days, the
  longest-streak candidate is the length of the longest run of consecutive calendar
  days anywhere in the sequence.
\<close>

lemma candidate_is_calendar_max_run:
  assumes "calendarNewestFirst dateKeys" and "\<forall>k \<in> set dateKeys. 100 \<le> fst k"
  shows "computeLongestStreak dateKeys = int (calendarMaxRun dateKeys)"
proof -
  from assms have "distinctDays dateKeys"
    by (intro newestFirst_distinctDays calendarNewestFirst_newestFirst)
  then have "computeLongestStreak dateKeys = int (toUtcMaxRun dateKeys)"
    by (rule computeLongestStreak_maxRun)
  with assms(2) show ?thesis
    by (simp only: toUtcMaxRun_calendar)
qed

section \<open>Sample entries\<close>

lemma sample_times:
  "toDate 1709341200 0 = 1709341200000"
  "toDate 1709370000 0 = 1709370000000"
  "toDate 1709341200 250000000 = 1709341200250"
  "toDate 1709337599 999600000 = 1709337600000"
  by code_simp+

lemma sample_dates:
  "toDateKey (toDate 1709341200 0) = (2024, 3, 2)"
  "toDateKey (toDate 1709254800 0) = (2024, 3, 1)"
  "toDateKey (toDate 1708909200 0) = (2024, 2, 26)"
  "toDateKey (toDate 1709370000 0) = (2024, 3, 2)"
  "toDateKey (toDate 1709341200 250000000) = (2024, 3, 2)"
  "toDateKey (toDate 1709294400 0) = (2024, 3, 1)"
  "toDateKey (toDate 1709337599 999600000) = (2024, 3, 2)"
  "toDateKey (toDate 946684800 0) = (2000, 1, 1)"
  "toDateKey (toDate (- 59011545600) 0) = (99, 12, 31)"
  "toDateKey (toDate (- 59011459200) 0) = (100, 1, 1)"
  by code_simp+

section \<open>Claims about the streak values\<close>

text \<open>
  C1. After one run on a habit, whatever its entry list, its clock and the longest
  streak stored before (non-negative or not, or none at all), the current streak that
  is written is at most the longest streak that is written, the latter being the
  maximum of the stored value and the new candidate.
\<close>

theorem current_le_persisted_longest:
  "\<exists>c l. currentStreak (fst (processHabit habitDoc docs w)) = Some c
       \<and> longestStreak (fst (processHabit habitDoc docs w)) = Some l
       \<and> l = max (previousLongest habitDoc) (computeLongestStreak (collectKeys [] docs))
       \<and> c \<le> l"
proof -
  have "fst (computeCurrentStreak (collectKeys [] docs) w)
          \<le> computeLongestStreak (collectKeys [] docs)"
    by (rule current_le_candidate)
  then show ?thesis
    by (simp add: processHabit_fields)
qed

theorem current_le_persisted_longest_witness:
  "currentStreak (fst (processHabit (freshHabit\<lparr>longestStreak := Some 1\<rparr>)
       [entryWith (FTimestamp 1709341200 0), entryWith (FTimestamp 1709254800 0),
        entryWith (FTimestamp 1708909200 0)] (worldAt 1709344800000))) = Some 2
   \<and> (\<exists>l. longestStreak (fst (processHabit (freshHabit\<lparr>longestStreak := Some 1\<rparr>)
       [entryWith (FTimestamp 1709341200 0), entryWith (FTimestamp 1709254800 0),
        entryWith (FTimestamp 1708909200 0)] (worldAt 1709344800000))) = Some l \<and> 2 \<le> l)"
proof -
  let ?h = "fst (processHabit (freshHabit\<lparr>longestStreak := Some 1\<rparr>)
       [entryWith (FTimestamp 1709341200 0), entryWith (FTimestamp 1709254800 0),
        entryWith (FTimestamp 1708909200 0)] (worldAt 1709344800000))"
  have k: "collectKeys [] [entryWith (FTimestamp 1709341200 0),
        entryWith (FTimestamp 1709254800 0), entryWith (FTimestamp 1708909200 0)]
      = [(2024, 3, 2), (2024, 3, 1), (2024, 2, 26)]"
    by (simp add: entryWith_def Let_def sample_dates)
  have v: "fst (computeCurrentStreak [(2024, 3, 2), (2024, 3, 1), (2024, 2, 26)]
      (worldAt 1709344800000)) = 2"
    by code_simp
  have c: "currentStreak ?h = Some 2"
    by (simp only: processHabit_fields k v)
  from current_le_persisted_longest [of "freshHabit\<lparr>longestStreak := Some 1\<rparr>"
       "[entryWith (FTimestamp 1709341200 0), entryWith (FTimestamp 1709254800 0),
        entryWith (FTimestamp 1708909200 0)]" "worldAt 1709344800000"]
  obtain c' l where "currentStreak ?h = Some c'" "longestStreak ?h = Some l" "c' \<le> l"
    by blast
  with c show ?thesis by simp
qed

text \<open>
  C2. The longest streak written by a run is the maximum of the value stored before
  (0 when the habit has none) and the candidate computed from the entries; so it is
  never below the value stored before.
\<close>

theorem persisted_longest_is_max:
  "longestStreak (fst (processHabit habitDoc docs w))
     = Some (max (previousLongest habitDoc) (computeLongestStreak (collectKeys [] docs)))
   \<and> (\<forall>prev. longestStreak habitDoc = Some prev \<longrightarrow>
         (\<exists>l. longestStreak (fst (processHabit habitDoc docs w)) = Some l
              \<and> l = max prev (computeLongestStreak (collectKeys [] docs)) \<and> prev \<le> l))"
proof (intro conjI allI impI)
  show "longestStreak (fst (processHabit habitDoc docs w))
     = Some (max (previousLongest habitDoc) (computeLongestStreak (collectKeys [] docs)))"
    by (rule processHabit_fields)
next
  fix prev
  assume "longestStreak habitDoc = Some prev"
  then have "previousLongest habitDoc = prev"
    by (simp add: previousLongest_def)
  then show "\<exists>l. longestStreak (fst (processHabit habitDoc docs w)) = Some l
              \<and> l = max prev (computeLongestStreak (collectKeys [] docs)) \<and> prev \<le> l"
    by (simp add: processHabit_fields)
qed

theorem persisted_longest_is_max_witness:
  "longestStreak (freshHabit\<lparr>longestStreak := Some 7\<rparr>) = Some 7
   \<and> computeLongestStreak (collectKeys []
        [entryWith (FTimestamp 1709341200 0), entryWith (FTimestamp 1709254800 0)]) = 2
   \<and> longestStreak (fst (processHabit (freshHabit\<lparr>longestStreak := Some 7\<rparr>)
        [entryWith (FTimestamp 1709341200 0), entryWith (FTimestamp 1709254800 0)]
        (worldAt 1709344800000))) = Some 7"
proof -
  let ?docs = "[entryWith (FTimestamp 1709341200 0), entryWith (FTimestamp 1709254800 0)]"
  have s: "longestStreak (freshHabit\<lparr>longestStreak := Some 7\<rparr>) = Some 7"
    by (simp add: freshHabit_def)
  have "collectKeys [] ?docs = [(2024, 3, 2), (2024, 3, 1)]"
    by (simp add: entryWith_def Let_def sample_dates)
  moreover have "computeLongestStreak [(2024, 3, 2), (2024, 3, 1)] = 2"
    by code_simp
  ultimately have k: "computeLongestStreak (collectKeys [] ?docs) = 2"
    by (simp only:)
  from persisted_longest_is_max [of "freshHabit\<lparr>longestStreak := Some 7\<rparr>" ?docs
      "worldAt 1709344800000"] s
  have "\<exists>l. longestStreak (fst (processHabit (freshHabit\<lparr>longestStreak := Some 7\<rparr>) ?docs
        (worldAt 1709344800000))) = Some l
        \<and> l = max 7 (computeLongestStreak (collectKeys [] ?docs))"
    by blast
  with s k show ?thesis by simp
qed

text \<open>
  C3. For a non-empty sequence of distinct day keys sorted newest first whose newest
  key is at most one day before today, the current streak is the length of the longest
  contiguous run that starts at the newest key: the count starts at 1, goes on while
  each gap is exactly 1, and ends for good at the first larger gap.
\<close>

theorem current_streak_is_trailing_run:
  assumes "dateKeys \<noteq> []"
    and "newestFirst dateKeys"
    and "gapToToday w (hd dateKeys) \<le> 1"
  shows "fst (computeCurrentStreak dateKeys w) = int (trailingRun dateKeys)"
proof -
  from assms(1) obtain first rest where k: "dateKeys = first # rest"
    by (cases dateKeys) auto
  from assms(2) have "distinctDays dateKeys"
    by (rule newestFirst_distinctDays)
  with k have "currentLoop (toUtc first) 1 rest = 1 + int (leadRun first rest)"
    by (simp add: currentLoop_leadRun)
  with assms(3) k show ?thesis
    by (simp add: computeCurrentStreak_Cons trailingRun_Cons)
qed

theorem current_streak_is_trailing_run_witness:
  "newestFirst [(2024, 3, 1), (2024, 2, 29), (2024, 2, 25), (2024, 2, 24), (2024, 2, 23)]
   \<and> gapToToday (worldAt 1709344800000) (2024, 3, 1) = 1
   \<and> fst (computeCurrentStreak
        [(2024, 3, 1), (2024, 2, 29), (2024, 2, 25), (2024, 2, 24), (2024, 2, 23)]
        (worldAt 1709344800000)) = 2
   \<and> trailingRun [(2024, 3, 1), (2024, 2, 29), (2024, 2, 25), (2024, 2, 24), (2024, 2, 23)] = 2"
proof -
  let ?keys = "[(2024, 3, 1), (2024, 2, 29), (2024, 2, 25), (2024, 2, 24), (2024, 2, 23)]"
  have nf: "newestFirst ?keys" by code_simp
  have g: "gapToToday (worldAt 1709344800000) (2024, 3, 1) = 1" by code_simp
  have c: "fst (computeCurrentStreak ?keys (worldAt 1709344800000)) = 2" by code_simp
  have "fst (computeCurrentStreak ?keys (worldAt 1709344800000)) = int (trailingRun ?keys)"
    by (rule current_streak_is_trailing_run) (simp_all add: nf g)
  with nf g c show ?thesis by simp
qed

text \<open>
  C4. The longest-streak candidate is meant to be the length of the longest run of
  consecutive days anywhere in the key sequence, and 0 for the empty sequence. \<open>toUtc\<close>
  is documented to return the UTC midnight of its date key, but \<open>Date.UTC\<close> takes the
  year of a key from 0099 or before as 1900 + year. Entries of 1 January 2000 and of
  31 December 0099 (both within Firestore's range) give two keys, distinct and newest
  first, that are 693961 days apart: the longest run of consecutive days is 1, and the
  code returns 2. Entries of 1 January 0100 and 31 December 0099 are consecutive days:
  the longest run is 2, and the code returns 1.
\<close>

theorem candidate_takes_year_99_for_1999:
  "collectKeys [] [entryWith (FTimestamp 946684800 0), entryWith (FTimestamp (- 59011545600) 0)]
     = [(2000, 1, 1), (99, 12, 31)]
   \<and> calendarNewestFirst [(2000, 1, 1), (99, 12, 31)]
   \<and> calendarGap (2000, 1, 1) (99, 12, 31) = 693961
   \<and> calendarMaxRun [(2000, 1, 1), (99, 12, 31)] = 1
   \<and> computeLongestStreak [(2000, 1, 1), (99, 12, 31)] = 2
   \<and> collectKeys [] [entryWith (FTimestamp (- 59011459200) 0),
                       entryWith (FTimestamp (- 59011545600) 0)]
     = [(100, 1, 1), (99, 12, 31)]
   \<and> calendarNewestFirst [(100, 1, 1), (99, 12, 31)]
   \<and> calendarGap (100, 1, 1) (99, 12, 31) = 1
   \<and> calendarMaxRun [(100, 1, 1), (99, 12, 31)] = 2
   \<and> computeLongestStreak [(100, 1, 1), (99, 12, 31)] = 1"
proof -
  have k1: "collectKeys []
      [entryWith (FTimestamp 946684800 0), entryWith (FTimestamp (- 59011545600) 0)]
      = [(2000, 1, 1), (99, 12, 31)]"
    by (simp add: entryWith_def Let_def sample_dates)
  have k2: "collectKeys [] [entryWith (FTimestamp (- 59011459200) 0),
                       entryWith (FTimestamp (- 59011545600) 0)]
      = [(100, 1, 1), (99, 12, 31)]"
    by (simp add: entryWith_def Let_def sample_dates)
  have a: "calendarNewestFirst [(2000, 1, 1), (99, 12, 31)]"
    "calendarGap (2000, 1, 1) (99, 12, 31) = 693961"
    "calendarMaxRun [(2000, 1, 1), (99, 12, 31)] = 1"
    "computeLongestStreak [(2000, 1, 1), (99, 12, 31)] = 2"
    by code_simp+
  have b: "calendarNewestFirst [(100, 1, 1), (99, 12, 31)]"
    "calendarGap (100, 1, 1) (99, 12, 31) = 1"
    "calendarMaxRun [(100, 1, 1), (99, 12, 31)] = 2"
    "computeLongestStreak [(100, 1, 1), (99, 12, 31)] = 1"
    by code_simp+
  from k1 k2 a b show ?thesis by (intro conjI)
qed

text \<open>
  C5. For a non-empty sequence of day keys with distinct days (sorted or not): when the
  newest key is more than one day before today the current streak is 0; otherwise
  (the newest key is today or yesterday) the newest key counts, so the streak is at
  least 1 (and at most the number of keys), and the key at position \<open>n\<close> is counted
  exactly when every gap in front of it is exactly 1.
\<close>

theorem start_gap_rule:
  assumes "dateKeys \<noteq> []"
    and "distinctDays dateKeys"
  shows "(1 < gapToToday w (hd dateKeys) \<longrightarrow> fst (computeCurrentStreak dateKeys w) = 0)
       \<and> (gapToToday w (hd dateKeys) \<le> 1 \<longrightarrow>
            fst (computeCurrentStreak dateKeys w) \<le> int (length dateKeys)
          \<and> (\<forall>n < length dateKeys.
               int n < fst (computeCurrentStreak dateKeys w)
                 \<longleftrightarrow> contiguous (take (Suc n) dateKeys)))"
proof -
  from assms(1) obtain first rest where k: "dateKeys = first # rest"
    by (cases dateKeys) auto
  from assms(2) k have loop: "currentLoop (toUtc first) 1 rest = 1 + int (leadRun first rest)"
    by (simp add: currentLoop_leadRun)
  have "int n < fst (computeCurrentStreak dateKeys w) \<longleftrightarrow> contiguous (take (Suc n) dateKeys)"
    if "gapToToday w first \<le> 1" and "n < length dateKeys" for n
  proof -
    from that k have "n \<le> length rest" by simp
    from contiguous_take_iff [OF this, of first]
    have "contiguous (take (Suc n) dateKeys) \<longleftrightarrow> n \<le> leadRun first rest"
      by (simp add: k)
    moreover have "int n < 1 + int (leadRun first rest) \<longleftrightarrow> n \<le> leadRun first rest"
      by linarith
    ultimately show ?thesis
      using that(1) k loop by (simp add: computeCurrentStreak_Cons)
  qed
  moreover have "fst (computeCurrentStreak dateKeys w) \<le> int (length dateKeys)"
    if "gapToToday w first \<le> 1"
    using that k loop contiguous_take_leadRun [of first rest]
    by (simp add: computeCurrentStreak_Cons)
  ultimately show ?thesis
    using k by (simp add: computeCurrentStreak_Cons)
qed

theorem start_gap_rule_witness:
  "distinctDays [(2024, 2, 28), (2024, 2, 27)]
   \<and> gapToToday (worldAt 1709344800000) (2024, 2, 28) = 3
   \<and> fst (computeCurrentStreak [(2024, 2, 28), (2024, 2, 27)] (worldAt 1709344800000)) = 0
   \<and> distinctDays [(2024, 3, 2), (2024, 3, 1), (2024, 2, 28)]
   \<and> gapToToday (worldAt 1709344800000) (2024, 3, 2) = 0
   \<and> contiguous (take 2 [(2024, 3, 2), (2024, 3, 1), (2024, 2, 28)])
   \<and> \<not> contiguous (take 3 [(2024, 3, 2), (2024, 3, 1), (2024, 2, 28)])
   \<and> 1 < fst (computeCurrentStreak [(2024, 3, 2), (2024, 3, 1), (2024, 2, 28)]
             (worldAt 1709344800000))
   \<and> \<not> 2 < fst (computeCurrentStreak [(2024, 3, 2), (2024, 3, 1), (2024, 2, 28)]
             (worldAt 1709344800000))"
proof -
  let ?old = "[(2024, 2, 28), (2024, 2, 27)]"
  let ?keys = "[(2024, 3, 2), (2024, 3, 1), (2024, 2, 28)]"
  let ?w = "worldAt 1709344800000"
  have nf1: "distinctDays ?old" by code_simp
  have g1: "gapToToday ?w (2024, 2, 28) = 3" by code_simp
  have nf2: "distinctDays ?keys" by code_simp
  have g2: "gapToToday ?w (2024, 3, 2) = 0" by code_simp
  have c2: "contiguous (take 2 ?keys)" by code_simp
  have c3: "\<not> contiguous (take 3 ?keys)" by code_simp
  from start_gap_rule [OF _ nf1, of ?w] g1
  have r1: "fst (computeCurrentStreak ?old ?w) = 0" by simp
  from start_gap_rule [OF _ nf2, of ?w] g2
  have all: "\<forall>n < length ?keys. int n < fst (computeCurrentStreak ?keys ?w)
               \<longleftrightarrow> contiguous (take (Suc n) ?keys)"
    by simp
  from all [rule_format, of 1] c2 have r2: "1 < fst (computeCurrentStreak ?keys ?w)"
    by (simp add: numeral_2_eq_2)
  from all [rule_format, of 2] c3 have r3: "\<not> 2 < fst (computeCurrentStreak ?keys ?w)"
    by (simp add: numeral_3_eq_3)
  from nf1 g1 r1 nf2 g2 c2 c3 r2 r3 show ?thesis by blast
qed

text \<open>
  C10. For a non-empty key sequence whose newest key is today or later (the day
  difference from the newest key to today is zero or negative), the current streak is
  at least 1: only a difference above 1 is rejected.
\<close>

theorem future_newest_key_counts:
  assumes "dateKeys \<noteq> []"
    and "gapToToday w (hd dateKeys) \<le> 0"
  shows "1 \<le> fst (computeCurrentStreak dateKeys w)"
proof -
  from assms(1) obtain first rest where k: "dateKeys = first # rest"
    by (cases dateKeys) auto
  have "1 \<le> currentLoop (toUtc first) 1 rest"
    by (rule currentLoop_ge)
  with assms(2) k show ?thesis
    by (simp add: computeCurrentStreak_Cons)
qed

theorem future_newest_key_counts_witness:
  "gapToToday (worldAt 1709344800000) (2024, 3, 9) = - 7
   \<and> 1 \<le> fst (computeCurrentStreak [(2024, 3, 9), (2024, 3, 1)] (worldAt 1709344800000))"
proof -
  have g: "gapToToday (worldAt 1709344800000) (2024, 3, 9) = - 7" by code_simp
  have "1 \<le> fst (computeCurrentStreak [(2024, 3, 9), (2024, 3, 1)] (worldAt 1709344800000))"
    by (rule future_newest_key_counts) (simp_all add: g)
  with g show ?thesis by simp
qed

section \<open>From entries to day keys\<close>

lemma instants_append: "instants (xs @ ys) = instants xs @ instants ys"
  by (induction xs) (auto split: fvalue.split)

lemma instants_filter: "instants (filter hasTimestamp docs) = instants docs"
  by (induction docs) (auto simp: hasTimestamp_def split: fvalue.split)

lemma collectKeys_snoc:
  "collectKeys (as @ [a]) docs = as @ remdups_adj (a # map toDateKey (instants docs))"
proof (induction docs arbitrary: as a)
  case Nil
  then show ?case by simp
next
  case (Cons d docs)
  show ?case
  proof (cases "performedAt d")
    case (FTimestamp s n)
    show ?thesis
    proof (cases "a = toDateKey (toDate s n)")
      case True
      with FTimestamp Cons.IH [of as a] show ?thesis by simp
    next
      case False
      with FTimestamp Cons.IH [of "as @ [a]" "toDateKey (toDate s n)"] show ?thesis by simp
    qed
  qed (use Cons.IH [of as a] in simp_all)
qed

lemma collectKeys_remdups_adj:
  "collectKeys [] docs = remdups_adj (map toDateKey (instants docs))"
proof (induction docs)
  case Nil
  then show ?case by simp
next
  case (Cons d docs)
  show ?case
  proof (cases "performedAt d")
    case (FTimestamp s n)
    with collectKeys_snoc [of "[]" "toDateKey (toDate s n)" docs] show ?thesis by simp
  qed (use Cons.IH in simp_all)
qed

lemma toDateKey_same_day:
  assumes "Day a = Day b"
  shows "toDateKey a = toDateKey b"
proof -
  have y: "YearFromTime a = YearFromTime b"
    unfolding YearFromTime_def by (simp only: assms)
  have d: "DayWithinYear a = DayWithinYear b"
    unfolding DayWithinYear_def by (simp only: assms y)
  have m: "MonthFromTime a = MonthFromTime b"
    unfolding MonthFromTime_def by (simp only: d y)
  have "DateFromTime a = DateFromTime b"
    unfolding DateFromTime_def by (simp only: d y m)
  with y m show ?thesis
    unfolding toDateKey_def by (simp only:)
qed

lemma Day_mono: "a \<le> b \<Longrightarrow> Day a \<le> Day b"
  by (simp add: Day_def msPerDay_def zdiv_mono1)

lemma same_day_between:
  assumes "x \<le> y" "y \<le> z" "Day x = Day z"
  shows "toDateKey y = toDateKey x" and "toDateKey y = toDateKey z"
proof -
  from Day_mono [OF assms(1)] Day_mono [OF assms(2)] assms(3)
  have yx: "Day y = Day x" and yz: "Day y = Day z"
    by simp_all
  from yx show "toDateKey y = toDateKey x"
    by (rule toDateKey_same_day)
  from yz show "toDateKey y = toDateKey z"
    by (rule toDateKey_same_day)
qed

lemma remdups_adj_drop_after:
  "f l = f t \<Longrightarrow>
   remdups_adj (map f (xs @ [l]) @ f t # ks) = remdups_adj (map f (xs @ [l]) @ ks)"
proof -
  assume eq: "f l = f t"
  have "remdups_adj (map f xs @ f l # f t # ks)
        = remdups_adj (map f xs @ [f l]) @ tl (remdups_adj (f l # f t # ks))"
    by (rule remdups_adj_append)
  also have "\<dots> = remdups_adj (map f xs @ [f l]) @ tl (remdups_adj (f l # ks))"
    using eq by simp
  also have "\<dots> = remdups_adj (map f xs @ f l # ks)"
    by (rule remdups_adj_append [symmetric])
  finally show ?thesis by simp
qed

lemma remdups_adj_drop_before:
  "f t = f h \<Longrightarrow>
   remdups_adj (ks @ f t # map f (h # ys)) = remdups_adj (ks @ map f (h # ys))"
proof -
  assume eq: "f t = f h"
  have "remdups_adj (ks @ f t # f h # map f ys)
        = remdups_adj (ks @ [f t]) @ tl (remdups_adj (f t # f h # map f ys))"
    by (rule remdups_adj_append)
  also have "\<dots> = remdups_adj (ks @ [f h]) @ tl (remdups_adj (f h # map f ys))"
    using eq by simp
  also have "\<dots> = remdups_adj (ks @ f h # map f ys)"
    by (rule remdups_adj_append [symmetric])
  finally show ?thesis by simp
qed

lemma same_day_insert_keys:
  assumes sorted: "sorted_wrt (\<ge>) (xs @ [t] @ ys)"
    and same: "\<exists>x \<in> set (xs @ ys). Day x = Day t"
  shows "remdups_adj (map toDateKey (xs @ [t] @ ys)) = remdups_adj (map toDateKey (xs @ ys))"
proof -
  from same obtain x where x: "x \<in> set xs \<or> x \<in> set ys" and d: "Day x = Day t"
    by auto
  from x show ?thesis
  proof
    assume xin: "x \<in> set xs"
    then have "xs \<noteq> []" by auto
    then obtain xs' l where xs: "xs = xs' @ [l]"
      by (metis rev_exhaust)
    from sorted have lt: "t \<le> l" and xl: "l \<le> x"
      using xin unfolding xs by (auto simp: sorted_wrt_append)
    from same_day_between(1) [OF lt xl] d have "toDateKey l = toDateKey t" by simp
    from remdups_adj_drop_after [of toDateKey l t xs' "map toDateKey ys", OF this]
    show ?thesis by (simp add: xs)
  next
    assume xin: "x \<in> set ys"
    then obtain h ys' where ys: "ys = h # ys'"
      by (cases ys) auto
    from sorted have ht: "h \<le> t" and xh: "x \<le> h"
      using xin unfolding ys by (auto simp: sorted_wrt_append)
    from same_day_between(2) [OF xh ht] d have "toDateKey t = toDateKey h" by simp
    from remdups_adj_drop_before [of toDateKey t h "map toDateKey xs" ys', OF this]
    show ?thesis by (simp add: ys)
  qed
qed

section \<open>What the key loop hands to the streak functions\<close>

text \<open>
  For time values from the year 100 on, \<open>toUtc\<close> gives back the UTC midnight of the day
  that \<open>toDateKey\<close> wrote down. (Before that, \<open>Date.UTC\<close> reads the year of the key as
  1900 + year.) So for entries in descending order of time the key loop produces a
  sequence of distinct days sorted newest first, and the candidate computed from it is
  the longest run of consecutive calendar days.
\<close>

lemma MonthFromTime_range: "0 \<le> MonthFromTime t \<and> MonthFromTime t \<le> 11"
  by (simp add: MonthFromTime_def Let_def)

lemma MakeDay_of_date:
  "MakeDay (YearFromTime t) (MonthFromTime t) (DateFromTime t) = Day t"
proof -
  from MonthFromTime_range [of t]
  have "MonthFromTime t div 12 = 0" and "MonthFromTime t mod 12 = MonthFromTime t"
    by simp_all
  then show ?thesis
    by (simp add: MakeDay_def DateFromTime_def DayWithinYear_def)
qed

lemma toUtc_toDateKey:
  assumes "100 \<le> YearFromTime t"
  shows "toUtc (toDateKey t) = Day t * DAY_MS"
  using assms MakeDay_of_date [of t]
  by (simp add: toUtc_def toDateKey_def Date_UTC_def DAY_MS_def msPerDay_def)

lemma later_day_later_midnight:
  assumes "100 \<le> YearFromTime a" "100 \<le> YearFromTime b"
    and "b \<le> a" "toDateKey a \<noteq> toDateKey b"
  shows "toUtc (toDateKey b) < toUtc (toDateKey a)"
proof -
  from assms(4) have "Day a \<noteq> Day b"
    using toDateKey_same_day by blast
  with Day_mono [OF assms(3)] have "Day b < Day a" by simp
  with DAY_MS_pos show ?thesis
    by (simp add: toUtc_toDateKey assms(1,2))
qed

lemma earlier_time_not_later_midnight:
  assumes "100 \<le> YearFromTime a" "100 \<le> YearFromTime b" and "b \<le> a"
  shows "toUtc (toDateKey b) \<le> toUtc (toDateKey a)"
  using Day_mono [OF assms(3)] DAY_MS_pos
  by (simp add: toUtc_toDateKey assms(1,2))

lemma keys_newestFirst:
  assumes "sorted_wrt (\<ge>) ts" and "\<forall>t \<in> set ts. 100 \<le> YearFromTime t"
  shows "newestFirst (remdups_adj (map toDateKey ts))"
  using assms
proof (induction ts rule: induct_list012)
  case 1
  then show ?case by (simp add: newestFirst_def)
next
  case (2 x)
  then show ?case by (simp add: newestFirst_def)
next
  case (3 x y zs)
  from "3.prems" have IH: "newestFirst (remdups_adj (map toDateKey (y # zs)))"
    by (intro "3.IH"(2)) simp_all
  show ?case
  proof (cases "toDateKey x = toDateKey y")
    case True
    with IH show ?thesis by simp
  next
    case False
    from "3.prems" have yx: "y \<le> x" and yrs: "100 \<le> YearFromTime x" "100 \<le> YearFromTime y"
      by simp_all
    from later_day_later_midnight [OF yrs yx False]
    have lt: "toUtc (toDateKey y) < toUtc (toDateKey x)" .
    have "toUtc (toDateKey t) < toUtc (toDateKey x)" if "t \<in> set (y # zs)" for t
    proof -
      from that "3.prems" have ty: "t \<le> y" and yt: "100 \<le> YearFromTime t"
        by auto
      from earlier_time_not_later_midnight [OF yrs(2) yt ty] lt show ?thesis
        by simp
    qed
    then have "\<forall>k \<in> set (remdups_adj (map toDateKey (y # zs))). toUtc k < toUtc (toDateKey x)"
      by auto
    with IH False show ?thesis
      by (simp add: newestFirst_def)
  qed
qed

lemma collectKeys_newestFirst:
  assumes "sorted_wrt (\<ge>) (instants docs)"
    and "\<forall>t \<in> set (instants docs). 100 \<le> YearFromTime t"
  shows "newestFirst (collectKeys [] docs)"
  using assms by (simp only: collectKeys_remdups_adj keys_newestFirst)

lemma collectKeys_years:
  assumes "\<forall>t \<in> set (instants docs). 100 \<le> YearFromTime t"
  shows "\<forall>k \<in> set (collectKeys [] docs). 100 \<le> fst k"
  using assms by (auto simp: collectKeys_remdups_adj toDateKey_def)

lemma candidate_of_descending_entries:
  assumes "sorted_wrt (\<ge>) (instants docs)"
    and "\<forall>t \<in> set (instants docs). 100 \<le> YearFromTime t"
  shows "computeLongestStreak (collectKeys [] docs)
           = int (calendarMaxRun (collectKeys [] docs))"
proof -
  from assms have "distinctDays (collectKeys [] docs)"
    by (intro newestFirst_distinctDays collectKeys_newestFirst)
  then have "computeLongestStreak (collectKeys [] docs)
      = int (toUtcMaxRun (collectKeys [] docs))"
    by (rule computeLongestStreak_maxRun)
  with collectKeys_years [OF assms(2)] show ?thesis
    by (simp only: toUtcMaxRun_calendar)
qed

section \<open>Claims about the entries\<close>

text \<open>
  C8. An entry whose \<open>performedAt\<close> is not a timestamp is skipped: for every entry
  list, every stored habit and every clock, the run writes a current streak and a
  longest streak, and they are the values the run writes for the sublist of the
  entries that carry a timestamp. No step of the calculation can fail, the empty list
  included: the source has no \<open>throw\<close>, its array reads are guarded (\<open>dateKeys[0]\<close> by
  the length test, \<open>docs[0]\<close> by \<open>?.\<close>), so the embedding is a total function with no
  error result; and the value written to \<open>lastEntryAt\<close> is never \<open>undefined\<close>, which
  the store would refuse.
\<close>

theorem malformed_entries_skipped:
  "collectKeys [] docs = collectKeys [] (filter hasTimestamp docs)
   \<and> (\<exists>c l. currentStreak (fst (processHabit habitDoc docs w)) = Some c
           \<and> longestStreak (fst (processHabit habitDoc docs w)) = Some l
           \<and> currentStreak (fst (processHabit habitDoc (filter hasTimestamp docs) w)) = Some c
           \<and> longestStreak (fst (processHabit habitDoc (filter hasTimestamp docs) w)) = Some l)
   \<and> lastEntryAt (fst (processHabit habitDoc docs w)) \<noteq> FUndefined"
proof -
  have "collectKeys [] docs = collectKeys [] (filter hasTimestamp docs)"
    by (simp add: collectKeys_remdups_adj instants_filter)
  moreover have "firstPerformedAt docs \<noteq> FUndefined"
    by (simp add: firstPerformedAt_def split: list.split fvalue.split)
  ultimately show ?thesis
    by (simp add: processHabit_fields)
qed

theorem malformed_entries_skipped_witness:
  "filter hasTimestamp [entryWith (FTimestamp 1709341200 0), entryWith FNull,
       entryWith (FString ''yesterday''), entryWith (FTimestamp 1709254800 0)]
     = [entryWith (FTimestamp 1709341200 0), entryWith (FTimestamp 1709254800 0)]
   \<and> currentStreak (fst (processHabit freshHabit
       [entryWith (FTimestamp 1709341200 0), entryWith (FTimestamp 1709254800 0)]
       (worldAt 1709344800000))) = Some 2
   \<and> currentStreak (fst (processHabit freshHabit
       [entryWith (FTimestamp 1709341200 0), entryWith FNull,
        entryWith (FString ''yesterday''), entryWith (FTimestamp 1709254800 0)]
       (worldAt 1709344800000))) = Some 2
   \<and> currentStreak (fst (processHabit freshHabit [] (worldAt 1709344800000))) = Some 0"
proof -
  let ?docs = "[entryWith (FTimestamp 1709341200 0), entryWith FNull,
        entryWith (FString ''yesterday''), entryWith (FTimestamp 1709254800 0)]"
  let ?good = "[entryWith (FTimestamp 1709341200 0), entryWith (FTimestamp 1709254800 0)]"
  let ?w = "worldAt 1709344800000"
  have f: "filter hasTimestamp ?docs = ?good" by code_simp
  have "collectKeys [] ?good = [(2024, 3, 2), (2024, 3, 1)]"
    by (simp add: entryWith_def Let_def sample_dates)
  moreover have "fst (computeCurrentStreak [(2024, 3, 2), (2024, 3, 1)] ?w) = 2"
    by code_simp
  ultimately have g: "currentStreak (fst (processHabit freshHabit ?good ?w)) = Some 2"
    by (simp only: processHabit_fields)
  from malformed_entries_skipped [of ?docs freshHabit ?w]
  have "currentStreak (fst (processHabit freshHabit ?docs ?w))
        = currentStreak (fst (processHabit freshHabit (filter hasTimestamp ?docs) ?w))"
    by auto
  with f g have d: "currentStreak (fst (processHabit freshHabit ?docs ?w)) = Some 2"
    by simp
  from malformed_entries_skipped [of "[]" freshHabit ?w]
  obtain c where "currentStreak (fst (processHabit freshHabit [] ?w)) = Some c"
    by blast
  moreover have "fst (computeCurrentStreak (collectKeys [] []) ?w) = 0"
    by (simp add: computeCurrentStreak_Nil)
  ultimately have e: "currentStreak (fst (processHabit freshHabit [] ?w)) = Some 0"
    by (simp add: processHabit_fields)
  from f g d e show ?thesis by simp
qed

text \<open>
  The query returns the entries in descending order of their exact times; rounding to
  the millisecond keeps that order.
\<close>

lemma toDate_mono:
  assumes "0 \<le> n1" "n1 < 1000000000" "0 \<le> n2" "n2 < 1000000000"
    and "nanosSinceEpoch s1 n1 \<le> nanosSinceEpoch s2 n2"
  shows "toDate s1 n1 \<le> toDate s2 n2"
proof (cases "s1 = s2")
  case True
  with assms(5) have "n1 \<le> n2"
    by (simp add: nanosSinceEpoch_def)
  then have "(2 * n1 + 1000000) div 2000000 \<le> (2 * n2 + 1000000) div 2000000"
    by (intro zdiv_mono1) simp_all
  with True show ?thesis
    by (simp add: toDate_int)
next
  case False
  with assms have "s1 + 1 \<le> s2"
    by (simp add: nanosSinceEpoch_def)
  moreover from assms(2) have "(2 * n1 + 1000000) div 2000000 \<le> 1000"
    by simp
  moreover from assms(3) have "0 \<le> (2 * n2 + 1000000) div 2000000"
    by simp
  ultimately show ?thesis
    by (simp add: toDate_int)
qed

lemma descending_entries_descending_dates:
  assumes "sorted_wrt (\<ge>) (exactTimes docs)" and "list_all validNanos docs"
  shows "sorted_wrt (\<ge>) (instants docs)"
  using assms
proof (induction docs)
  case Nil
  then show ?case by simp
next
  case (Cons d docs)
  show ?case
  proof (cases "performedAt d")
    case (FTimestamp s n)
    from Cons.prems FTimestamp have v: "0 \<le> n" "n < 1000000000"
      by (simp_all add: validNanos_def)
    from Cons.prems FTimestamp have IH: "sorted_wrt (\<ge>) (instants docs)"
      by (intro Cons.IH) simp_all
    have later: "\<forall>x \<in> set (exactTimes docs). x \<le> nanosSinceEpoch s n"
      using Cons.prems(1) FTimestamp by simp
    have "t \<le> toDate s n" if "t \<in> set (instants docs)" for t
      using that Cons.prems(2) later
    proof (induction docs)
      case Nil
      then show ?case by simp
    next
      case (Cons e es)
      show ?case
      proof (cases "performedAt e")
        case e: (FTimestamp s' n')
        from Cons.prems(2) e have v': "0 \<le> n'" "n' < 1000000000"
          by (simp_all add: validNanos_def)
        from Cons.prems(3) e have "nanosSinceEpoch s' n' \<le> nanosSinceEpoch s n"
          by simp
        from toDate_mono [OF v' v this] have "toDate s' n' \<le> toDate s n" .
        with Cons e show ?thesis by auto
      qed (use Cons in auto)
    qed
    with IH FTimestamp show ?thesis by simp
  qed (use Cons in simp_all)
qed

text \<open>
  C9, as the code has it. The day key is taken from \<open>performedAt.toDate()\<close>, the time
  rounded to the nearest millisecond. Entries whose rounded times lie on one UTC day
  give one day key. Take an entry list whose rounded times are in descending order
  (as they are in the query result) after an entry has been put into it whose rounded
  time lies on a day on which the list already had an entry: the day keys, and with
  them the current streak and the longest-streak candidate, are those of the list
  without the new entry. (The other entries may be malformed; they are skipped in
  both lists.)
\<close>

theorem same_day_entry_changes_nothing:
  assumes "performedAt e = FTimestamp s n"
    and "sorted_wrt (\<ge>) (instants (before @ [e] @ after))"
    and "\<exists>x \<in> set (instants (before @ after)). Day x = Day (toDate s n)"
  shows "collectKeys [] (before @ [e] @ after) = collectKeys [] (before @ after)
       \<and> fst (computeCurrentStreak (collectKeys [] (before @ [e] @ after)) w)
           = fst (computeCurrentStreak (collectKeys [] (before @ after)) w)
       \<and> computeLongestStreak (collectKeys [] (before @ [e] @ after))
           = computeLongestStreak (collectKeys [] (before @ after))"
proof -
  let ?t = "toDate s n"
  from assms(1) have i: "instants (before @ [e] @ after)
      = instants before @ [?t] @ instants after"
    by (simp add: instants_append)
  from assms(2) have s: "sorted_wrt (\<ge>) (instants before @ [?t] @ instants after)"
    by (simp only: i)
  from assms(3) have x: "\<exists>x \<in> set (instants before @ instants after). Day x = Day ?t"
    by (simp only: instants_append)
  have "collectKeys [] (before @ [e] @ after)
        = remdups_adj (map toDateKey (instants before @ [?t] @ instants after))"
    by (simp only: collectKeys_remdups_adj i)
  also have "\<dots> = remdups_adj (map toDateKey (instants before @ instants after))"
    by (rule same_day_insert_keys [OF s x])
  also have "\<dots> = collectKeys [] (before @ after)"
    by (simp only: collectKeys_remdups_adj instants_append)
  finally show ?thesis by simp
qed

theorem same_day_entry_changes_nothing_witness:
  "toDate 1709341200 250000000 = 1709341200250
   \<and> Day 1709341200250 = Day 1709370000000
   \<and> collectKeys []
         [entryWith (FTimestamp 1709370000 0), entryWith (FTimestamp 1709341200 250000000)]
       = collectKeys [] [entryWith (FTimestamp 1709370000 0)]
   \<and> fst (computeCurrentStreak (collectKeys []
         [entryWith (FTimestamp 1709370000 0), entryWith (FTimestamp 1709341200 250000000)])
         (worldAt 1709373600000)) = 1
   \<and> fst (computeCurrentStreak (collectKeys [] [entryWith (FTimestamp 1709370000 0)])
         (worldAt 1709373600000)) = 1"
proof -
  let ?e = "entryWith (FTimestamp 1709341200 250000000)"
  let ?w = "worldAt 1709373600000"
  have p: "performedAt ?e = FTimestamp 1709341200 250000000"
    by (simp add: entryWith_def)
  have t: "toDate 1709341200 250000000 = 1709341200250" by (rule sample_times)
  have t0: "toDate 1709370000 0 = 1709370000000" by (rule sample_times)
  have s: "sorted_wrt (\<ge>) (instants ([entryWith (FTimestamp 1709370000 0)] @ [?e] @ []))"
    by (simp add: entryWith_def t t0)
  have d: "Day 1709341200250 = Day 1709370000000" by code_simp
  then have x: "\<exists>x \<in> set (instants ([entryWith (FTimestamp 1709370000 0)] @ [])).
      Day x = Day (toDate 1709341200 250000000)"
    by (simp add: entryWith_def t t0)
  have "collectKeys [] [entryWith (FTimestamp 1709370000 0)] = [(2024, 3, 2)]"
    by (simp add: entryWith_def Let_def sample_dates)
  moreover have "fst (computeCurrentStreak [(2024, 3, 2)] ?w) = 1"
    by code_simp
  ultimately
  have c: "fst (computeCurrentStreak (collectKeys [] [entryWith (FTimestamp 1709370000 0)]) ?w) = 1"
    by (simp only:)
  from same_day_entry_changes_nothing [OF p s x, of ?w] c d t show ?thesis
    by simp
qed

text \<open>
  C9, as stated, fails. The entries of 2024-03-01T12:00:00Z and of
  2024-03-01T23:59:59.9996Z lie on the same UTC day, the second after the first. The
  second is rounded to 2024-03-02T00:00:00.000Z and keyed 2 March: with it in the list
  there are two day keys instead of one, and with the clock on 2 March the current
  streak is 2 instead of 1 and the longest-streak candidate 2 instead of 1.
\<close>

theorem last_half_millisecond_is_next_day:
  "exactDay 1709337599 999600000 = exactDay 1709294400 0
   \<and> nanosSinceEpoch 1709294400 0 \<le> nanosSinceEpoch 1709337599 999600000
   \<and> collectKeys [] [entryWith (FTimestamp 1709294400 0)] = [(2024, 3, 1)]
   \<and> collectKeys [] [entryWith (FTimestamp 1709337599 999600000),
                       entryWith (FTimestamp 1709294400 0)]
       = [(2024, 3, 2), (2024, 3, 1)]
   \<and> fst (computeCurrentStreak (collectKeys [] [entryWith (FTimestamp 1709294400 0)])
         (worldAt 1709344800000)) = 1
   \<and> fst (computeCurrentStreak (collectKeys []
         [entryWith (FTimestamp 1709337599 999600000), entryWith (FTimestamp 1709294400 0)])
         (worldAt 1709344800000)) = 2
   \<and> computeLongestStreak (collectKeys [] [entryWith (FTimestamp 1709294400 0)]) = 1
   \<and> computeLongestStreak (collectKeys []
         [entryWith (FTimestamp 1709337599 999600000), entryWith (FTimestamp 1709294400 0)]) = 2"
proof -
  have d: "exactDay 1709337599 999600000 = exactDay 1709294400 0"
    "nanosSinceEpoch 1709294400 0 \<le> nanosSinceEpoch 1709337599 999600000"
    by code_simp+
  have k1: "collectKeys [] [entryWith (FTimestamp 1709294400 0)] = [(2024, 3, 1)]"
    by (simp add: entryWith_def Let_def sample_dates)
  have k2: "collectKeys [] [entryWith (FTimestamp 1709337599 999600000),
                       entryWith (FTimestamp 1709294400 0)]
       = [(2024, 3, 2), (2024, 3, 1)]"
    by (simp add: entryWith_def Let_def sample_dates)
  have v: "fst (computeCurrentStreak [(2024, 3, 1)] (worldAt 1709344800000)) = 1"
    "fst (computeCurrentStreak [(2024, 3, 2), (2024, 3, 1)] (worldAt 1709344800000)) = 2"
    "computeLongestStreak [(2024, 3, 1)] = 1"
    "computeLongestStreak [(2024, 3, 2), (2024, 3, 1)] = 2"
    by code_simp+
  from d v show ?thesis
    unfolding k1 k2 by (intro conjI) simp_all
qed

section \<open>Claims about the clock and about lastEntryAt\<close>






text \<open>
  The now-instant matters: the same entry and the same habit give current streak 1
  when the clock shows 2 March 2024 and 0 when it shows 7 March 2024.
\<close>

lemma now_instant_matters:
  "currentStreak (fst (processHabit freshHabit [entryWith (FTimestamp 1709341200 0)]
        (worldAt 1709344800000))) = Some 1
   \<and> currentStreak (fst (processHabit freshHabit [entryWith (FTimestamp 1709341200 0)]
        (worldAt 1709776800000))) = Some 0"
proof -
  have k: "collectKeys [] [entryWith (FTimestamp 1709341200 0)] = [(2024, 3, 2)]"
    by (simp add: entryWith_def Let_def sample_dates)
  have v: "fst (computeCurrentStreak [(2024, 3, 2)] (worldAt 1709344800000)) = 1"
    "fst (computeCurrentStreak [(2024, 3, 2)] (worldAt 1709776800000)) = 0"
    by code_simp+
  show ?thesis
    by (simp only: processHabit_fields k v)
qed

text \<open>
  \<open>lastEntryAt\<close> is the \<open>performedAt\<close> field of the first document of the query
  result. When that document carries a timestamp and the timestamps are in descending
  order this is the newest instant, and for the empty list it is \<open>null\<close>.
\<close>

lemma lastEntryAt_of_timestamped_head:
  assumes "performedAt d = FTimestamp s n"
    and "sorted_wrt (\<ge>) (instants (d # docs))"
  shows "lastEntryAt (fst (processHabit habitDoc (d # docs) w)) = FTimestamp s n
       \<and> toDate s n = Max (set (instants (d # docs)))"
proof -
  from assms have "\<forall>x \<in> set (instants docs). x \<le> toDate s n" by simp
  then have "Max (insert (toDate s n) (set (instants docs))) = toDate s n"
    by (intro Max_eqI) auto
  with assms(1) show ?thesis
    by (simp add: processHabit_fields firstPerformedAt_def)
qed

lemma lastEntryAt_of_no_entries:
  "lastEntryAt (fst (processHabit habitDoc [] w)) = FNull"
  by (simp add: processHabit_fields firstPerformedAt_def)

text \<open>
  C7. The first document's field is taken without the timestamp test that the key
  loop applies. Firestore sorts a text value above every timestamp, so in the
  descending query result a document whose \<open>performedAt\<close> is text comes first. Then
  \<open>lastEntryAt\<close> is that text and not the instant of the newest entry, although the
  scan found an entry with a timestamp (and counted it: the current streak is 1).
\<close>

theorem lastEntryAt_takes_malformed_head:
  "lastEntryAt (fst (processHabit freshHabit
       [entryWith (FString ''2024-03-05''), entryWith (FTimestamp 1709341200 0)]
       (worldAt 1709344800000))) = FString ''2024-03-05''
   \<and> instants [entryWith (FString ''2024-03-05''), entryWith (FTimestamp 1709341200 0)]
       = [1709341200000]
   \<and> currentStreak (fst (processHabit freshHabit
       [entryWith (FString ''2024-03-05''), entryWith (FTimestamp 1709341200 0)]
       (worldAt 1709344800000))) = Some 1"
proof -
  let ?docs = "[entryWith (FString ''2024-03-05''), entryWith (FTimestamp 1709341200 0)]"
  have f: "firstPerformedAt ?docs = FString ''2024-03-05''"
    by (simp add: firstPerformedAt_def entryWith_def)
  have i: "instants ?docs = [1709341200000]"
    by (simp add: entryWith_def sample_times)
  have k: "collectKeys [] ?docs = [(2024, 3, 2)]"
    by (simp add: entryWith_def Let_def sample_dates)
  have v: "fst (computeCurrentStreak [(2024, 3, 2)] (worldAt 1709344800000)) = 1"
    by code_simp
  from i show ?thesis
    by (simp only: processHabit_fields f k v)
qed

end
